theory Spec2Isabelle
  imports Complex_Main
begin

section \<open>Data model\<close>

text \<open>
  A decoded response body, as \<open>response.json()\<close> delivers it. Python's \<open>None\<close> is
  \<open>JNull\<close>; a \<open>dict\<close> keeps its keys in insertion order, so it is an association list.
  Python integers are unbounded (\<open>int\<close>). A Python \<open>float\<close> is idealised as the exact
  rational it denotes: rounding, range and the special values of IEEE doubles are outside
  this model, so arithmetic on samples is exact arithmetic.
\<close>

datatype json =
    JNull
  | JBool bool
  | JInt int
  | JFloat rat
  | JStr string
  | JList "json list"
  | JDict "(string \<times> json) list"

text \<open>
  The objects that pass \<open>isinstance(obj, (int, float))\<close>. In Python \<open>bool\<close> is a subclass
  of \<open>int\<close>, so \<open>True\<close> and \<open>False\<close> pass the test and keep their own type.
\<close>

datatype pynum = PInt int | PFloat rat | PBool bool

text \<open>The numeric value used by Python's arithmetic and comparisons.\<close>

fun num :: "pynum \<Rightarrow> rat" where
  "num (PInt i) = of_int i"
| "num (PFloat x) = x"
| "num (PBool b) = (if b then 1 else 0)"

text \<open>A field of a history record: a number or a string such as \<open>"N/A"\<close>.\<close>

datatype cell = Num pynum | Str string

record wrecord =
  timestamp :: string
  api :: string
  val :: cell
  status :: string
  max_value :: cell
  min_value :: cell
  avg_value :: cell

text \<open>The two fields of \<open>Config\<close> that the workflow engine reads.\<close>

record config =
  MAX_DEPTH :: int
  ALERT_THRESHOLD :: int

datatype exc =
    RequestException
  | OtherException
  | ZeroDivisionError
  | IndexError
  | ValueError
  | TypeError

text \<open>
  The result of a call that may raise. The two exceptions of the outside world are
  \<open>RequestException\<close> (any exception of that class of the \<open>requests\<close> library) and
  \<open>OtherException\<close> (any other subclass of \<open>Exception\<close>); the remaining ones are those of
  the partial operations of the engine itself.
\<close>

datatype 'a outcome = Returns 'a | Raises exc

text \<open>
  The outside world. Every transport answers by a function of the moment of the call (the
  number of events so far), so that an endpoint may answer differently on each call:
  \<open>http_get\<close> is \<open>session.get\<close> with \<open>raise_for_status\<close> and \<open>response.json()\<close>,
  \<open>smtp_send\<close> the SMTP dialogue, \<open>slack_post\<close> is \<open>session.post\<close> to the webhook,
  \<open>sheet_append\<close> is \<open>append_row\<close>, \<open>sheet_open\<close> the authentication at startup and
  \<open>now\<close> is \<open>str(datetime.now())\<close>.
\<close>

datatype sheet = Worksheet string

record env =
  http_get :: "string \<Rightarrow> nat \<Rightarrow> json outcome"
  smtp_send :: "cell \<Rightarrow> nat \<Rightarrow> unit outcome"
  slack_post :: "cell \<Rightarrow> nat \<Rightarrow> unit outcome"
  sheet_append :: "cell \<Rightarrow> nat \<Rightarrow> unit outcome"
  sheet_open :: "sheet outcome"
  now :: "nat \<Rightarrow> string"

text \<open>
  The calls made during a run, in order: the calls of \<open>recursive_workflow\<close> and of
  \<open>select_next_api\<close> with their arguments, and every call of a transport. The source
  keeps no such list; the model keeps it so that a property about which calls are made,
  and at which depth, can be stated. Its length also serves as the moment of a call.
\<close>

datatype event =
    Enter "string option" int
  | Select "pynum list" int
  | HttpGet string
  | SmtpSend cell
  | SlackPost cell
  | SheetAppend cell

datatype level = INFO | WARNING | ERROR

datatype message =
    ApiCalled string
  | ApiError string
  | EmailSent cell
  | EmailError
  | SlackNotified cell
  | SlackError
  | SheetUpdated cell
  | SheetError
  | SheetAuthError
  | CriticalValue cell
  | WorkflowEnd

text \<open>
  The mutable state of the process: the global list \<open>dashboard_data\<close>, the log file and
  the calls made so far.
\<close>

record world =
  dashboard_data :: "wrecord list"
  logfile :: "(level \<times> message) list"
  trace :: "event list"

record service =
  config :: config
  gs_sheet :: "sheet option"

definition logging :: "level \<Rightarrow> message \<Rightarrow> world \<Rightarrow> world" where
  "logging l m w = w\<lparr>logfile := logfile w @ [(l, m)]\<rparr>"

definition called :: "event \<Rightarrow> world \<Rightarrow> world" where
  "called ev w = w\<lparr>trace := trace w @ [ev]\<rparr>"

section \<open>Number extraction\<close>

text \<open>
  \<open>WorkflowService.find_numbers\<close>: the branches in the order of the source's
  \<open>if\<close>/\<open>elif\<close> chain; each loop extends \<open>results\<close>, starting from the empty list.
\<close>

fun find_numbers :: "json \<Rightarrow> pynum list" where
  "find_numbers (JDict kvs) =
     foldl (\<lambda>results v. results @ find_numbers v) [] (map snd kvs)"
| "find_numbers (JList items) =
     foldl (\<lambda>results item. results @ find_numbers item) [] items"
| "find_numbers (JBool b) = [PBool b]"
| "find_numbers (JInt i) = [PInt i]"
| "find_numbers (JFloat x) = [PFloat x]"
| "find_numbers _ = []"

text \<open>
  The scalar leaves of a value in traversal order: the values of a mapping in key order,
  the elements of a sequence in order.
\<close>

fun leaves :: "json \<Rightarrow> json list" where
  "leaves (JDict kvs) = concat (map (\<lambda>kv. leaves (snd kv)) kvs)"
| "leaves (JList items) = concat (map leaves items)"
| "leaves j = [j]"

text \<open>
  The extraction as the specification words it: a numeric scalar that is not a boolean
  gives one sample, every other scalar gives none.
\<close>

fun spec_sample :: "json \<Rightarrow> pynum list" where
  "spec_sample (JInt i) = [PInt i]"
| "spec_sample (JFloat x) = [PFloat x]"
| "spec_sample _ = []"

definition spec_extract :: "json \<Rightarrow> pynum list" where
  "spec_extract j = concat (map spec_sample (leaves j))"

text \<open>What the source's \<open>isinstance\<close> test keeps of a scalar.\<close>

fun numeric_leaf :: "json \<Rightarrow> pynum list" where
  "numeric_leaf (JBool b) = [PBool b]"
| "numeric_leaf (JInt i) = [PInt i]"
| "numeric_leaf (JFloat x) = [PFloat x]"
| "numeric_leaf _ = []"

fun is_bool :: "json \<Rightarrow> bool" where
  "is_bool (JBool b) = True"
| "is_bool _ = False"

section \<open>Choice of the next endpoint\<close>

definition endpoint_A :: string where
  "endpoint_A = ''https://api.publicapis.org/entries''"

definition endpoint_B :: string where
  "endpoint_B = ''https://api.coingecko.com/api/v3/simple/price?ids=bitcoin&vs_currencies=usd''"

definition endpoint_C :: string where
  "endpoint_C = ''https://api.exchangerate.host/latest''"

text \<open>\<open>sum(numbers)\<close>, and \<open>a / len(numbers)\<close>, which raises on a zero divisor.\<close>

definition py_sum :: "pynum list \<Rightarrow> rat" where
  "py_sum numbers = foldl (\<lambda>acc x. acc + num x) 0 numbers"

definition py_truediv :: "rat \<Rightarrow> nat \<Rightarrow> exc + rat" where
  "py_truediv a n = (if n = 0 then Inl ZeroDivisionError else Inr (a / of_nat n))"

text \<open>\<open>WorkflowService.select_next_api\<close>; \<open>None\<close> is the result \<open>Inr None\<close>.\<close>

definition select_next_api :: "config \<Rightarrow> pynum list \<Rightarrow> int \<Rightarrow> exc + string option" where
  "select_next_api cfg numbers depth =
     (if depth \<ge> MAX_DEPTH cfg \<or> numbers = [] then Inr None
      else
        (case py_truediv (py_sum numbers) (length numbers) of
           Inl e \<Rightarrow> Inl e
         | Inr avg \<Rightarrow>
             if avg < 50 then Inr (Some endpoint_A)
             else if avg < 100 then Inr (Some endpoint_B)
             else Inr (Some endpoint_C)))"

text \<open>The arithmetic mean of the samples' numeric values.\<close>

definition mean :: "pynum list \<Rightarrow> rat" where
  "mean numbers = sum_list (map num numbers) / of_nat (length numbers)"

section \<open>Dashboard reads\<close>

text \<open>
  The slice \<open>xs[i:]\<close>: a negative start counts from the end and is clamped at the
  beginning of the list, a start past the end is clamped at the end.
\<close>

definition slice_from :: "int \<Rightarrow> 'a list \<Rightarrow> 'a list" where
  "slice_from i xs =
     (let n = int (length xs);
          start = (if i < 0 then max (i + n) 0 else min i n)
      in drop (nat start) xs)"

text \<open>\<open>dashboard_data[-20:][::-1]\<close>, the data of both read routes.\<close>

definition api_latest :: "world \<Rightarrow> wrecord list" where
  "api_latest w = rev (slice_from (-20) (dashboard_data w))"

definition dashboard :: "world \<Rightarrow> wrecord list" where
  "dashboard w = (let recent = rev (slice_from (-20) (dashboard_data w)) in recent)"

section \<open>Fetching\<close>

text \<open>
  \<open>ApiManager.fetch_data\<close>. Only a \<open>RequestException\<close> is handled: the handler logs,
  appends the error record and returns \<open>None\<close>. Any other exception leaves the function.
  The three calls of the \<open>try\<close> block are the one call \<open>http_get\<close>, so the line
  \<open>API appelee\<close> that the source logs before a decoding that fails is not in the log of
  the model.
\<close>

definition fetch_data :: "env \<Rightarrow> string \<Rightarrow> world \<Rightarrow> json outcome \<times> world" where
  "fetch_data env api_url w =
     (let w1 = called (HttpGet api_url) w in
      case http_get env api_url (length (trace w)) of
        Returns body \<Rightarrow> (Returns body, logging INFO (ApiCalled api_url) w1)
      | Raises e \<Rightarrow>
          if e = RequestException then
            (let w2 = logging ERROR (ApiError api_url) w1 in
             (Returns JNull,
              w2\<lparr>dashboard_data := dashboard_data w2 @
                [\<lparr>timestamp = now env (length (trace w2)), api = api_url,
                  val = Str ''Erreur API'', status = ''Erreur'',
                  max_value = Str ''N/A'', min_value = Str ''N/A'',
                  avg_value = Str ''N/A''\<rparr>]\<rparr>))
          else (Raises e, w1))"

section \<open>Notification sinks\<close>

text \<open>\<open>_setup_google_sheet\<close>: every exception gives the absent handle.\<close>

definition setup_google_sheet :: "env \<Rightarrow> world \<Rightarrow> sheet option \<times> world" where
  "setup_google_sheet env w =
     (case sheet_open env of
        Returns sh \<Rightarrow> (Some sh, w)
      | Raises e \<Rightarrow> (None, logging ERROR SheetAuthError w))"

text \<open>\<open>send_email\<close>: the handler is \<open>except Exception\<close>.\<close>

definition send_email :: "env \<Rightarrow> cell \<Rightarrow> world \<Rightarrow> unit outcome \<times> world" where
  "send_email env v w =
     (let w1 = called (SmtpSend v) w in
      case smtp_send env v (length (trace w)) of
        Returns u \<Rightarrow> (Returns (), logging INFO (EmailSent v) w1)
      | Raises e \<Rightarrow> (Returns (), logging ERROR EmailError w1))"

text \<open>\<open>send_slack\<close>: the handler is \<open>except requests.exceptions.RequestException\<close>.\<close>

definition send_slack :: "env \<Rightarrow> cell \<Rightarrow> world \<Rightarrow> unit outcome \<times> world" where
  "send_slack env v w =
     (let w1 = called (SlackPost v) w in
      case slack_post env v (length (trace w)) of
        Returns u \<Rightarrow> (Returns (), logging INFO (SlackNotified v) w1)
      | Raises e \<Rightarrow>
          if e = RequestException then (Returns (), logging ERROR SlackError w1)
          else (Raises e, w1))"

text \<open>\<open>update_google_sheet\<close>: nothing without a handle; the handler is \<open>except Exception\<close>.\<close>

definition update_google_sheet ::
    "service \<Rightarrow> env \<Rightarrow> cell \<Rightarrow> world \<Rightarrow> unit outcome \<times> world" where
  "update_google_sheet svc env v w =
     (case gs_sheet svc of
        None \<Rightarrow> (Returns (), w)
      | Some sh \<Rightarrow>
          (let w1 = called (SheetAppend v) w in
           case sheet_append env v (length (trace w)) of
             Returns u \<Rightarrow> (Returns (), logging INFO (SheetUpdated v) w1)
           | Raises e \<Rightarrow> (Returns (), logging ERROR SheetError w1)))"

section \<open>The workflow engine\<close>

text \<open>Sequencing: an exception ends the sequence and keeps the state reached.\<close>

definition bind ::
    "'a outcome \<times> world \<Rightarrow> ('a \<Rightarrow> world \<Rightarrow> 'b outcome \<times> world) \<Rightarrow> 'b outcome \<times> world" where
  "bind r f = (case r of (Raises e, w) \<Rightarrow> (Raises e, w) | (Returns x, w) \<Rightarrow> f x w)"

definition lift :: "exc + 'a \<Rightarrow> world \<Rightarrow> 'a outcome \<times> world" where
  "lift r w = (case r of Inl e \<Rightarrow> (Raises e, w) | Inr x \<Rightarrow> (Returns x, w))"

text \<open>\<open>numbers[0]\<close>, \<open>max(numbers)\<close> and \<open>min(numbers)\<close>; the builtins keep the first of
  several equal extremes.\<close>

fun py_first :: "pynum list \<Rightarrow> exc + pynum" where
  "py_first [] = Inl IndexError"
| "py_first (x # xs) = Inr x"

fun py_max :: "pynum list \<Rightarrow> exc + pynum" where
  "py_max [] = Inl ValueError"
| "py_max (x # xs) = Inr (foldl (\<lambda>m y. if num y > num m then y else m) x xs)"

fun py_min :: "pynum list \<Rightarrow> exc + pynum" where
  "py_min [] = Inl ValueError"
| "py_min (x # xs) = Inr (foldl (\<lambda>m y. if num y < num m then y else m) x xs)"

text \<open>\<open>round(x, 2)\<close> on the exact value: to the nearest hundredth, a tie to the even one.\<close>

definition round_half_even :: "rat \<Rightarrow> int" where
  "round_half_even x =
     (let f = \<lfloor>x\<rfloor>; r = x - of_int f
      in if r < 1 / 2 then f else if r > 1 / 2 then f + 1
         else if even f then f else f + 1)"

definition py_round2 :: "rat \<Rightarrow> rat" where
  "py_round2 x = of_int (round_half_even (x * 100)) / 100"

text \<open>\<open>value != "N/A" and value >= ALERT_THRESHOLD\<close>; Python refuses to order a string
  and an integer.\<close>

definition critical :: "config \<Rightarrow> cell \<Rightarrow> exc + bool" where
  "critical cfg v =
     (case v of
        Str s \<Rightarrow> if s \<noteq> ''N/A'' then Inl TypeError else Inr False
      | Num n \<Rightarrow> Inr (num n \<ge> of_int (ALERT_THRESHOLD cfg)))"

text \<open>The three sinks in the order of the calls in \<open>recursive_workflow\<close>.\<close>

definition notify :: "service \<Rightarrow> env \<Rightarrow> cell \<Rightarrow> world \<Rightarrow> unit outcome \<times> world" where
  "notify svc env v w =
     bind (send_email env v w) (\<lambda>u w1.
     bind (send_slack env v w1) (\<lambda>u w2.
     update_google_sheet svc env v w2))"

text \<open>
  The body of \<open>recursive_workflow\<close> from the extraction to the append to
  \<open>dashboard_data\<close>; it returns \<open>numbers\<close> for the selection that follows.
\<close>

definition process :: "service \<Rightarrow> env \<Rightarrow> string \<Rightarrow> json \<Rightarrow> world \<Rightarrow> pynum list outcome \<times> world" where
  "process svc env api_url data w =
     (let numbers = find_numbers data in
      bind (if numbers \<noteq> [] then lift (map_sum id Num (py_first numbers)) w
            else (Returns (Str ''N/A''), w)) (\<lambda>v w.
      bind (if numbers \<noteq> [] then
              bind (lift (py_max numbers) w) (\<lambda>mx w.
              bind (lift (py_min numbers) w) (\<lambda>mn w.
              bind (lift (py_truediv (py_sum numbers) (length numbers)) w) (\<lambda>q w.
              bind (notify svc env v w) (\<lambda>u w.
              bind (lift (critical (config svc) v) w) (\<lambda>crit w.
                if crit then
                  (Returns (''ALERTE'', Num mx, Num mn, Num (PFloat (py_round2 q))),
                   logging WARNING (CriticalValue v) w)
                else
                  (Returns (''OK'', Num mx, Num mn, Num (PFloat (py_round2 q))), w))))))
            else (Returns (''OK'', Str ''N/A'', Str ''N/A'', Str ''N/A''), w))
        (\<lambda>(st, mx, mn, av) w.
          (Returns numbers,
           w\<lparr>dashboard_data := dashboard_data w @
             [\<lparr>timestamp = now env (length (trace w)), api = api_url, val = v,
               status = st, max_value = mx, min_value = mn, avg_value = av\<rparr>]\<rparr>))))"

text \<open>
  \<open>WorkflowService.recursive_workflow\<close>. The test \<open>data is None\<close> cannot tell the
  \<open>None\<close> of the error handler of \<open>fetch_data\<close> from a body that decodes to \<open>None\<close>.
\<close>

function recursive_workflow ::
    "service \<Rightarrow> env \<Rightarrow> string option \<Rightarrow> int \<Rightarrow> world \<Rightarrow> unit outcome \<times> world" where
  "recursive_workflow svc env api_url depth w =
     (let w0 = called (Enter api_url depth) w in
      case api_url of
        None \<Rightarrow> (Returns (), logging INFO WorkflowEnd w0)
      | Some url \<Rightarrow>
          (case fetch_data env url w0 of
             (Raises e, w1) \<Rightarrow> (Raises e, w1)
           | (Returns data, w1) \<Rightarrow>
               if data = JNull then (Returns (), w1)
               else
                 (case process svc env url data w1 of
                    (Raises e, w2) \<Rightarrow> (Raises e, w2)
                  | (Returns numbers, w2) \<Rightarrow>
                      (let w3 = called (Select numbers (depth + 1)) w2 in
                       case select_next_api (config svc) numbers (depth + 1) of
                         Inl e \<Rightarrow> (Raises e, w3)
                       | Inr next_api \<Rightarrow>
                           recursive_workflow svc env next_api (depth + 1) w3))))"
  by pat_completeness auto
termination
proof (relation "measure (\<lambda>(svc, env, api_url, depth, w).
          case api_url of None \<Rightarrow> 0 | Some u \<Rightarrow> 1 + nat (MAX_DEPTH (config svc) - depth))")
  show "wf (measure (\<lambda>(svc, env, api_url, depth, w).
          case api_url of None \<Rightarrow> 0 | Some u \<Rightarrow> 1 + nat (MAX_DEPTH (config svc) - depth)))"
    by simp
next
  fix svc :: service and env :: env and api_url :: "string option" and depth :: int
    and numbers :: "pynum list" and next_api :: "string option" and url :: string
    and w w3 :: world
  assume "api_url = Some url"
    and "select_next_api (config svc) numbers (depth + 1) = Inr next_api"
  then show "((svc, env, next_api, depth + 1, w3), (svc, env, api_url, depth, w))
      \<in> measure (\<lambda>(svc, env, api_url, depth, w).
          case api_url of None \<Rightarrow> 0 | Some u \<Rightarrow> 1 + nat (MAX_DEPTH (config svc) - depth))"
    by (cases next_api)
       (auto simp: select_next_api_def split: if_splits sum.splits)
qed

text \<open>One run of the scheduler loop of \<open>start_workflow\<close>.\<close>

definition initial_api :: string where
  "initial_api = ''https://api.publicapis.org/random''"

definition run :: "service \<Rightarrow> env \<Rightarrow> world \<Rightarrow> unit outcome \<times> world" where
  "run svc env w = recursive_workflow svc env (Some initial_api) 0 w"

section \<open>Observing a run\<close>

text \<open>The depth arguments of the calls of \<open>recursive_workflow\<close> among some events, and
  the number of fetches among them.\<close>

fun depths :: "event list \<Rightarrow> int list" where
  "depths [] = []"
| "depths (Enter a d # es) = d # depths es"
| "depths (ev # es) = depths es"

fun fetches :: "event list \<Rightarrow> nat" where
  "fetches [] = 0"
| "fetches (HttpGet u # es) = Suc (fetches es)"
| "fetches (ev # es) = fetches es"


text \<open>
  What a computation added to the calls made and to \<open>dashboard_data\<close>, between the
  state \<open>w\<close> before it and the state \<open>w'\<close> after it.
\<close>

definition new_events :: "world \<Rightarrow> world \<Rightarrow> event list" where
  "new_events w w' = drop (length (trace w)) (trace w')"

definition new_records :: "world \<Rightarrow> world \<Rightarrow> wrecord list" where
  "new_records w w' = drop (length (dashboard_data w)) (dashboard_data w')"

definition extends :: "world \<Rightarrow> world \<Rightarrow> bool" where
  "extends w w' \<longleftrightarrow>
     trace w' = trace w @ new_events w w' \<and>
     dashboard_data w' = dashboard_data w @ new_records w w'"


section \<open>Example surroundings\<close>

text \<open>
  An outside world where every call succeeds and every fetch returns the same body, a
  service with a sheet handle and the default alert threshold, and the state of a fresh
  process.
\<close>

definition quiet_env :: "json \<Rightarrow> env" where
  "quiet_env body =
     \<lparr>http_get = (\<lambda>u t. Returns body), smtp_send = (\<lambda>v t. Returns ()),
      slack_post = (\<lambda>v t. Returns ()), sheet_append = (\<lambda>v t. Returns ()),
      sheet_open = Returns (Worksheet ''Sheet1''), now = (\<lambda>t. ''now'')\<rparr>"

definition service0 :: "int \<Rightarrow> service" where
  "service0 d = \<lparr>config = \<lparr>MAX_DEPTH = d, ALERT_THRESHOLD = 1000\<rparr>,
      gs_sheet = Some (Worksheet ''Sheet1'')\<rparr>"

definition world0 :: world where
  "world0 = \<lparr>dashboard_data = [], logfile = [], trace = []\<rparr>"


declare recursive_workflow.simps [simp del]

section \<open>Properties of the extraction\<close>

lemma foldl_extend:
  "foldl (\<lambda>results v. results @ f v) acc xs = acc @ concat (map f xs)"
  by (induction xs arbitrary: acc) simp_all

lemma concat_map_concat_map:
  "concat (map g (concat (map h xs))) = concat (map (\<lambda>x. concat (map g (h x))) xs)"
  by (induction xs) simp_all

lemma find_numbers_leaves: "find_numbers j = concat (map numeric_leaf (leaves j))"
proof (induction j rule: find_numbers.induct)
  case (1 kvs)
  have "concat (map (\<lambda>v. find_numbers v) (map snd kvs))
      = concat (map (\<lambda>v. concat (map numeric_leaf (leaves v))) (map snd kvs))"
    using 1 by (intro arg_cong[where f = concat] map_cong) auto
  then show ?case
    by (simp add: foldl_extend concat_map_concat_map comp_def)
next
  case (2 items)
  have "concat (map find_numbers items)
      = concat (map (\<lambda>v. concat (map numeric_leaf (leaves v))) items)"
    using 2 by (intro arg_cong[where f = concat] map_cong) auto
  then show ?case
    by (simp add: foldl_extend concat_map_concat_map)
qed simp_all

lemma spec_sample_eq: "\<not> is_bool j \<Longrightarrow> spec_sample j = numeric_leaf j"
  by (cases j) simp_all

text \<open>
  Claim C1, as stated, fails: a boolean leaf passes the \<open>isinstance\<close> test of
  \<open>find_numbers\<close>. The response \<open>{"ok": true, "n": 5}\<close> gives the samples
  \<open>[True, 5]\<close>, where the extraction without booleans gives \<open>[5]\<close>.
\<close>

theorem find_numbers_keeps_boolean:
  "find_numbers (JDict [(''ok'', JBool True), (''n'', JInt 5)]) = [PBool True, PInt 5]
   \<and> find_numbers (JDict [(''ok'', JBool True), (''n'', JInt 5)])
       \<noteq> spec_extract (JDict [(''ok'', JBool True), (''n'', JInt 5)])"
  by (simp add: spec_extract_def)

text \<open>
  Claim C1, amended: \<open>find_numbers\<close> returns exactly the integer, float and boolean
  leaves of the value in traversal order (mapping values in key order, sequence elements
  in order); string and null scalars give the empty sequence, a boolean scalar gives
  itself; on a value without boolean leaves the result is the sequence of numeric leaves
  the specification describes.
\<close>

theorem find_numbers_numeric_leaves:
  "find_numbers j = concat (map numeric_leaf (leaves j))
   \<and> find_numbers (JStr s) = [] \<and> find_numbers JNull = []
   \<and> find_numbers (JBool b) = [PBool b]
   \<and> ((\<forall>l \<in> set (leaves j). \<not> is_bool l) \<longrightarrow> find_numbers j = spec_extract j)"
proof -
  have "find_numbers j = spec_extract j" if "\<forall>l \<in> set (leaves j). \<not> is_bool l"
  proof -
    have "map numeric_leaf (leaves j) = map spec_sample (leaves j)"
      using that by (intro map_cong) (simp_all add: spec_sample_eq)
    then show ?thesis
      by (simp only: find_numbers_leaves spec_extract_def)
  qed
  then show ?thesis
    by (simp add: find_numbers_leaves)
qed

theorem find_numbers_numeric_leaves_witness:
  "filter is_bool
     (leaves (JDict [(''a'', JInt 10), (''b'', JDict [(''c'', JInt 20), (''d'', JInt 80)])])) = []
   \<and> find_numbers (JDict [(''a'', JInt 10), (''b'', JDict [(''c'', JInt 20), (''d'', JInt 80)])])
       = spec_extract (JDict [(''a'', JInt 10), (''b'', JDict [(''c'', JInt 20), (''d'', JInt 80)])])
   \<and> spec_extract (JDict [(''a'', JInt 10), (''b'', JDict [(''c'', JInt 20), (''d'', JInt 80)])])
       = [PInt 10, PInt 20, PInt 80]"
  (is "filter is_bool (leaves ?j) = [] \<and> _")
proof -
  have f: "filter is_bool (leaves ?j) = []"
    by simp
  then have h: "\<forall>l \<in> set (leaves ?j). \<not> is_bool l"
    by (simp only: filter_empty_conv)
  have e: "find_numbers ?j = spec_extract ?j"
    using h find_numbers_numeric_leaves [of ?j] by blast
  have "spec_extract ?j = [PInt 10, PInt 20, PInt 80]"
    by (simp add: spec_extract_def)
  with f e show ?thesis
    by blast
qed

section \<open>Properties of the selection\<close>

lemma foldl_add_num:
  "foldl (\<lambda>acc x. acc + num x) a xs = a + sum_list (map num xs)"
  by (induction xs arbitrary: a) (simp_all add: add.assoc)

lemma py_sum_eq: "py_sum numbers = sum_list (map num numbers)"
  by (simp add: py_sum_def foldl_add_num)

lemma select_next_api_eq:
  "select_next_api cfg numbers depth =
     (if depth \<ge> MAX_DEPTH cfg \<or> numbers = [] then Inr None
      else if mean numbers < 50 then Inr (Some endpoint_A)
      else if mean numbers < 100 then Inr (Some endpoint_B)
      else Inr (Some endpoint_C))"
  by (simp add: select_next_api_def py_truediv_def py_sum_eq mean_def)



section \<open>Properties of the dashboard reads\<close>

lemma slice_from_last: "slice_from (- 20) xs = drop (length xs - 20) xs"
  by (simp add: slice_from_def Let_def max_def nat_diff_distrib') 

text \<open>
  Claim C9: a dashboard read returns at most 20 records, and they are the most recent
  records of \<open>dashboard_data\<close>, the newest first; both routes read the same records.
\<close>

theorem api_latest_recent:
  "length (api_latest w) = min 20 (length (dashboard_data w))
   \<and> length (api_latest w) \<le> 20
   \<and> api_latest w = take 20 (rev (dashboard_data w))
   \<and> dashboard w = api_latest w
   \<and> (\<forall>i < length (api_latest w).
        api_latest w ! i = dashboard_data w ! (length (dashboard_data w) - 1 - i))"
proof -
  have eq: "api_latest w = take 20 (rev (dashboard_data w))"
    by (simp add: api_latest_def slice_from_last take_rev)
  have len: "length (api_latest w) = min 20 (length (dashboard_data w))"
    unfolding eq by simp
  have nth: "api_latest w ! i = dashboard_data w ! (length (dashboard_data w) - 1 - i)"
    if "i < length (api_latest w)" for i
    using that unfolding eq by (simp add: rev_nth)
  have same: "dashboard w = api_latest w"
    by (simp add: dashboard_def api_latest_def)
  from len have "length (api_latest w) \<le> 20"
    by simp
  with len eq same nth show ?thesis
    by blast
qed

theorem api_latest_recent_witness:
  "0 < length (api_latest \<lparr>dashboard_data =
        [\<lparr>timestamp = ''t1'', api = ''u'', val = Str ''N/A'', status = ''OK'',
          max_value = Str ''N/A'', min_value = Str ''N/A'', avg_value = Str ''N/A''\<rparr>,
         \<lparr>timestamp = ''t2'', api = ''u'', val = Str ''N/A'', status = ''OK'',
          max_value = Str ''N/A'', min_value = Str ''N/A'', avg_value = Str ''N/A''\<rparr>],
        logfile = [], trace = []\<rparr>)
   \<and> timestamp (api_latest \<lparr>dashboard_data =
        [\<lparr>timestamp = ''t1'', api = ''u'', val = Str ''N/A'', status = ''OK'',
          max_value = Str ''N/A'', min_value = Str ''N/A'', avg_value = Str ''N/A''\<rparr>,
         \<lparr>timestamp = ''t2'', api = ''u'', val = Str ''N/A'', status = ''OK'',
          max_value = Str ''N/A'', min_value = Str ''N/A'', avg_value = Str ''N/A''\<rparr>],
        logfile = [], trace = []\<rparr> ! 0) = ''t2''"
  (is "0 < length (api_latest ?w) \<and> _")
proof -
  have len: "length (api_latest ?w) = min 20 (length (dashboard_data ?w))"
    using api_latest_recent [of ?w] by blast
  then have h: "0 < length (api_latest ?w)"
    by simp
  have "api_latest ?w ! 0 = dashboard_data ?w ! (length (dashboard_data ?w) - 1 - 0)"
    using h api_latest_recent [of ?w] by blast
  then have "timestamp (api_latest ?w ! 0) = ''t2''"
    by simp
  with h show ?thesis
    by blast
qed

section \<open>The effects of the sinks\<close>

lemma send_email_fst: "fst (send_email env v w) = Returns ()"
  by (simp add: send_email_def Let_def split: outcome.splits)

lemma send_email_trace: "trace (snd (send_email env v w)) = trace w @ [SmtpSend v]"
  by (simp add: send_email_def Let_def called_def logging_def split: outcome.splits)

lemma send_email_dd: "dashboard_data (snd (send_email env v w)) = dashboard_data w"
  by (simp add: send_email_def Let_def called_def logging_def split: outcome.splits)

lemma send_slack_fst:
  "fst (send_slack env v w) =
     (case slack_post env v (length (trace w)) of
        Returns u \<Rightarrow> Returns ()
      | Raises e \<Rightarrow> if e = RequestException then Returns () else Raises e)"
  by (simp add: send_slack_def Let_def split: outcome.splits)

lemma send_slack_trace: "trace (snd (send_slack env v w)) = trace w @ [SlackPost v]"
  by (simp add: send_slack_def Let_def called_def logging_def split: outcome.splits)

lemma send_slack_dd: "dashboard_data (snd (send_slack env v w)) = dashboard_data w"
  by (simp add: send_slack_def Let_def called_def logging_def split: outcome.splits)

lemma update_google_sheet_fst: "fst (update_google_sheet svc env v w) = Returns ()"
  by (simp add: update_google_sheet_def Let_def split: outcome.splits option.splits)

lemma update_google_sheet_trace:
  "trace (snd (update_google_sheet svc env v w)) =
     trace w @ (case gs_sheet svc of None \<Rightarrow> [] | Some sh \<Rightarrow> [SheetAppend v])"
  by (simp add: update_google_sheet_def Let_def called_def logging_def
      split: outcome.splits option.splits)

lemma update_google_sheet_dd:
  "dashboard_data (snd (update_google_sheet svc env v w)) = dashboard_data w"
  by (simp add: update_google_sheet_def Let_def called_def logging_def
      split: outcome.splits option.splits)

lemma bind_Returns: "bind (Returns x, w) f = f x w"
  by (simp add: bind_def)

lemma bind_Raises: "bind (Raises e, w) f = (Raises e, w)"
  by (simp add: bind_def)

lemma bind_fst_Returns: "fst r = Returns x \<Longrightarrow> bind r f = f x (snd r)"
  by (cases r) (simp add: bind_def)

lemma bind_fst_Raises: "fst r = Raises e \<Longrightarrow> bind r f = (Raises e, snd r)"
  by (cases r) (simp add: bind_def)

lemma notify_eq:
  "notify svc env v w =
     (case fst (send_slack env v (snd (send_email env v w))) of
        Returns u \<Rightarrow> update_google_sheet svc env v (snd (send_slack env v (snd (send_email env v w))))
      | Raises e \<Rightarrow> (Raises e, snd (send_slack env v (snd (send_email env v w)))))"
  by (simp add: notify_def bind_fst_Returns[OF send_email_fst] bind_fst_Returns bind_fst_Raises
      split: outcome.splits)

lemma notify_fst:
  "fst (notify svc env v w) =
     (case slack_post env v (Suc (length (trace w))) of
        Returns u \<Rightarrow> Returns ()
      | Raises e \<Rightarrow> if e = RequestException then Returns () else Raises e)"
  by (simp add: notify_eq send_slack_fst send_email_trace update_google_sheet_fst
      split: outcome.splits)

lemma notify_dd: "dashboard_data (snd (notify svc env v w)) = dashboard_data w"
  by (simp add: notify_eq send_slack_dd send_email_dd update_google_sheet_dd
      split: outcome.splits)

lemma notify_trace:
  "trace (snd (notify svc env v w)) =
     trace w @ [SmtpSend v, SlackPost v] @
       (case fst (notify svc env v w) of
          Returns u \<Rightarrow> (case gs_sheet svc of None \<Rightarrow> [] | Some sh \<Rightarrow> [SheetAppend v])
        | Raises e \<Rightarrow> [])"
  by (simp add: notify_eq send_slack_trace send_email_trace update_google_sheet_trace
      update_google_sheet_fst split: outcome.splits)

section \<open>One iteration\<close>

lemma process_empty:
  "find_numbers data = [] \<Longrightarrow>
   process svc env url data w =
     (Returns [],
      w\<lparr>dashboard_data := dashboard_data w @
        [\<lparr>timestamp = now env (length (trace w)), api = url, val = Str ''N/A'',
          status = ''OK'', max_value = Str ''N/A'', min_value = Str ''N/A'',
          avg_value = Str ''N/A''\<rparr>]\<rparr>)"
  by (simp add: process_def bind_def)

lemma process_nonempty:
  "find_numbers data = x # xs \<Longrightarrow>
   process svc env url data w =
     (case notify svc env (Num x) w of
        (Raises e, w1) \<Rightarrow> (Raises e, w1)
      | (Returns u, w1) \<Rightarrow>
          (Returns (x # xs),
           (if num x \<ge> of_int (ALERT_THRESHOLD (config svc))
            then logging WARNING (CriticalValue (Num x)) w1 else w1)
           \<lparr>dashboard_data := dashboard_data w1 @
             [\<lparr>timestamp = now env (length (trace w1)), api = url, val = Num x,
               status = (if num x \<ge> of_int (ALERT_THRESHOLD (config svc))
                         then ''ALERTE'' else ''OK''),
               max_value = Num (foldl (\<lambda>m y. if num y > num m then y else m) x xs),
               min_value = Num (foldl (\<lambda>m y. if num y < num m then y else m) x xs),
               avg_value = Num (PFloat (py_round2 (mean (x # xs))))\<rparr>]\<rparr>))"
  by (simp add: process_def bind_def lift_def py_truediv_def py_sum_eq mean_def critical_def
      logging_def split: prod.splits outcome.splits)

lemma fetch_data_Returns:
  "http_get env url (length (trace w)) = Returns body \<Longrightarrow>
   fetch_data env url w = (Returns body, logging INFO (ApiCalled url) (called (HttpGet url) w))"
  by (simp add: fetch_data_def Let_def)

lemma fetch_data_RequestException:
  "http_get env url (length (trace w)) = Raises RequestException \<Longrightarrow>
   fetch_data env url w =
     (Returns JNull,
      w\<lparr>trace := trace w @ [HttpGet url],
        logfile := logfile w @ [(ERROR, ApiError url)],
        dashboard_data := dashboard_data w @
          [\<lparr>timestamp = now env (Suc (length (trace w))), api = url,
            val = Str ''Erreur API'', status = ''Erreur'',
            max_value = Str ''N/A'', min_value = Str ''N/A'',
            avg_value = Str ''N/A''\<rparr>]\<rparr>)"
  by (simp add: fetch_data_def Let_def called_def logging_def)

lemma fetch_data_other:
  "http_get env url (length (trace w)) = Raises e \<Longrightarrow> e \<noteq> RequestException \<Longrightarrow>
   fetch_data env url w = (Raises e, called (HttpGet url) w)"
  by (simp add: fetch_data_def Let_def)

lemma depths_append: "depths (es @ fs) = depths es @ depths fs"
  by (induction es rule: depths.induct) simp_all

lemma fetches_append: "fetches (es @ fs) = fetches es + fetches fs"
  by (induction es rule: fetches.induct) simp_all

lemma select_next_api_Inr: "\<exists>r. select_next_api cfg numbers depth = Inr r"
  by (simp add: select_next_api_eq)

lemma select_next_api_Some_depth:
  "select_next_api cfg numbers depth = Inr (Some u) \<Longrightarrow> depth < MAX_DEPTH cfg \<and> numbers \<noteq> []"
  by (simp add: select_next_api_eq split: if_splits)

lemma recursive_workflow_None:
  "recursive_workflow svc env None depth w =
     (Returns (), w\<lparr>trace := trace w @ [Enter None depth],
                    logfile := logfile w @ [(INFO, WorkflowEnd)]\<rparr>)"
  by (simp add: recursive_workflow.simps [of _ _ None] Let_def called_def logging_def)

lemma recursive_workflow_Some:
  "recursive_workflow svc env (Some url) depth w =
     (case fetch_data env url (called (Enter (Some url) depth) w) of
        (Raises e, w1) \<Rightarrow> (Raises e, w1)
      | (Returns data, w1) \<Rightarrow>
          if data = JNull then (Returns (), w1)
          else
            (case process svc env url data w1 of
               (Raises e, w2) \<Rightarrow> (Raises e, w2)
             | (Returns numbers, w2) \<Rightarrow>
                 (case select_next_api (config svc) numbers (depth + 1) of
                    Inl e \<Rightarrow> (Raises e, called (Select numbers (depth + 1)) w2)
                  | Inr next_api \<Rightarrow>
                      recursive_workflow svc env next_api (depth + 1)
                        (called (Select numbers (depth + 1)) w2))))"
  by (subst recursive_workflow.simps) (simp add: Let_def split: prod.splits outcome.splits)

lemma workflow_induct [case_names None Some]:
  assumes none: "\<And>depth w. P None depth w"
    and some: "\<And>url depth w.
      (\<And>numbers next_api w3.
          select_next_api (config svc) numbers (depth + 1) = Inr next_api \<Longrightarrow>
          P next_api (depth + 1) w3) \<Longrightarrow>
      P (Some url) depth w"
  shows "P api_url depth w"
proof (induction "case api_url of None \<Rightarrow> 0 | Some u \<Rightarrow> 1 + nat (MAX_DEPTH (config svc) - depth)"
    arbitrary: api_url depth w rule: less_induct)
  case less
  show ?case
  proof (cases api_url)
    case None
    then show ?thesis by (simp add: none)
  next
    case (Some url)
    have "P next_api (depth + 1) w3"
      if "select_next_api (config svc) numbers (depth + 1) = Inr next_api"
      for numbers next_api w3
    proof (rule less)
      show "(case next_api of None \<Rightarrow> 0 | Some u \<Rightarrow> 1 + nat (MAX_DEPTH (config svc) - (depth + 1)))
          < (case api_url of None \<Rightarrow> 0 | Some u \<Rightarrow> 1 + nat (MAX_DEPTH (config svc) - depth))"
        using that Some select_next_api_Some_depth [of "config svc" numbers "depth + 1"]
        by (cases next_api) auto
    qed
    then show ?thesis
      unfolding Some by (rule some)
  qed
qed

lemma process_cases:
  obtains
    (escaped) x xs e w2 where
      "find_numbers data = x # xs"
      "slack_post env (Num x) (Suc (length (trace w))) = Raises e" "e \<noteq> RequestException"
      "trace w2 = trace w @ [SmtpSend (Num x), SlackPost (Num x)]"
      "dashboard_data w2 = dashboard_data w"
      "process svc env url data w = (Raises e, w2)"
  | (recorded) w2 ses r where
      "trace w2 = trace w @ ses" "depths ses = []" "fetches ses = 0"
      "dashboard_data w2 = dashboard_data w @ [r]"
      "process svc env url data w = (Returns (find_numbers data), w2)"
proof (cases "find_numbers data")
  case Nil
  show ?thesis
    by (rule recorded [where ses = "[]"]) (simp_all add: process_empty [OF Nil] Nil)
next
  case (Cons x xs)
  obtain r w1 where n: "notify svc env (Num x) w = (r, w1)"
    by (cases "notify svc env (Num x) w")
  have tr: "trace w1 = trace w @ [SmtpSend (Num x), SlackPost (Num x)] @
       (case r of
          Returns u \<Rightarrow> (case gs_sheet svc of None \<Rightarrow> [] | Some sh \<Rightarrow> [SheetAppend (Num x)])
        | Raises e \<Rightarrow> [])"
    using notify_trace [of svc env "Num x" w] by (simp add: n)
  have dd: "dashboard_data w1 = dashboard_data w"
    using notify_dd [of svc env "Num x" w] by (simp add: n)
  have fs: "r = (case slack_post env (Num x) (Suc (length (trace w))) of
        Returns u \<Rightarrow> Returns ()
      | Raises e \<Rightarrow> if e = RequestException then Returns () else Raises e)"
    using notify_fst [of svc env "Num x" w] by (simp add: n)
  show ?thesis
  proof (cases r)
    case (Raises e)
    with fs have "slack_post env (Num x) (Suc (length (trace w))) = Raises e"
      and "e \<noteq> RequestException"
      by (auto split: outcome.splits if_splits)
    then show ?thesis
      using Cons tr dd Raises
      by (intro escaped [where ?w2.0 = w1]) (simp_all add: process_nonempty [OF Cons] n)
  next
    case (Returns u)
    show ?thesis
    proof (rule recorded)
      show "process svc env url data w =
        (Returns (find_numbers data),
         (if num x \<ge> of_int (ALERT_THRESHOLD (config svc))
            then logging WARNING (CriticalValue (Num x)) w1 else w1)
           \<lparr>dashboard_data := dashboard_data w1 @
             [\<lparr>timestamp = now env (length (trace w1)), api = url, val = Num x,
               status = (if num x \<ge> of_int (ALERT_THRESHOLD (config svc))
                         then ''ALERTE'' else ''OK''),
               max_value = Num (foldl (\<lambda>m y. if num y > num m then y else m) x xs),
               min_value = Num (foldl (\<lambda>m y. if num y < num m then y else m) x xs),
               avg_value = Num (PFloat (py_round2 (mean (x # xs))))\<rparr>]\<rparr>)"
        by (simp add: process_nonempty [OF Cons] n Returns Cons)
      show "trace ((if num x \<ge> of_int (ALERT_THRESHOLD (config svc))
            then logging WARNING (CriticalValue (Num x)) w1 else w1)
           \<lparr>dashboard_data := dashboard_data w1 @
             [\<lparr>timestamp = now env (length (trace w1)), api = url, val = Num x,
               status = (if num x \<ge> of_int (ALERT_THRESHOLD (config svc))
                         then ''ALERTE'' else ''OK''),
               max_value = Num (foldl (\<lambda>m y. if num y > num m then y else m) x xs),
               min_value = Num (foldl (\<lambda>m y. if num y < num m then y else m) x xs),
               avg_value = Num (PFloat (py_round2 (mean (x # xs))))\<rparr>]\<rparr>)
          = trace w @ ([SmtpSend (Num x), SlackPost (Num x)] @
              (case gs_sheet svc of None \<Rightarrow> [] | Some sh \<Rightarrow> [SheetAppend (Num x)]))"
        by (simp add: tr Returns logging_def)
      show "depths ([SmtpSend (Num x), SlackPost (Num x)] @
              (case gs_sheet svc of None \<Rightarrow> [] | Some sh \<Rightarrow> [SheetAppend (Num x)])) = []"
        by (simp split: option.splits)
      show "fetches ([SmtpSend (Num x), SlackPost (Num x)] @
              (case gs_sheet svc of None \<Rightarrow> [] | Some sh \<Rightarrow> [SheetAppend (Num x)])) = 0"
        by (simp split: option.splits)
      show "dashboard_data ((if num x \<ge> of_int (ALERT_THRESHOLD (config svc))
            then logging WARNING (CriticalValue (Num x)) w1 else w1)
           \<lparr>dashboard_data := dashboard_data w1 @
             [\<lparr>timestamp = now env (length (trace w1)), api = url, val = Num x,
               status = (if num x \<ge> of_int (ALERT_THRESHOLD (config svc))
                         then ''ALERTE'' else ''OK''),
               max_value = Num (foldl (\<lambda>m y. if num y > num m then y else m) x xs),
               min_value = Num (foldl (\<lambda>m y. if num y < num m then y else m) x xs),
               avg_value = Num (PFloat (py_round2 (mean (x # xs))))\<rparr>]\<rparr>)
          = dashboard_data w @
             [\<lparr>timestamp = now env (length (trace w1)), api = url, val = Num x,
               status = (if num x \<ge> of_int (ALERT_THRESHOLD (config svc))
                         then ''ALERTE'' else ''OK''),
               max_value = Num (foldl (\<lambda>m y. if num y > num m then y else m) x xs),
               min_value = Num (foldl (\<lambda>m y. if num y < num m then y else m) x xs),
               avg_value = Num (PFloat (py_round2 (mean (x # xs))))\<rparr>]"
        by (simp add: dd)
    qed
  qed
qed

lemma called_simps:
  "trace (called ev w) = trace w @ [ev]"
  "dashboard_data (called ev w) = dashboard_data w"
  "logfile (called ev w) = logfile w"
  by (simp_all add: called_def)

lemma logging_simps:
  "trace (logging l m w) = trace w"
  "dashboard_data (logging l m w) = dashboard_data w"
  "logfile (logging l m w) = logfile w @ [(l, m)]"
  by (simp_all add: logging_def)

lemma recursive_workflow_cases:
  obtains
    (raised) e where
      "http_get env url (Suc (length (trace w))) = Raises e" "e \<noteq> RequestException"
      "recursive_workflow svc env (Some url) depth w =
         (Raises e, w\<lparr>trace := trace w @ [Enter (Some url) depth, HttpGet url]\<rparr>)"
  | (failed)
      "http_get env url (Suc (length (trace w))) = Raises RequestException"
      "recursive_workflow svc env (Some url) depth w =
         (Returns (),
          w\<lparr>trace := trace w @ [Enter (Some url) depth, HttpGet url],
            logfile := logfile w @ [(ERROR, ApiError url)],
            dashboard_data := dashboard_data w @
              [\<lparr>timestamp = now env (length (trace w) + 2), api = url,
                val = Str ''Erreur API'', status = ''Erreur'',
                max_value = Str ''N/A'', min_value = Str ''N/A'',
                avg_value = Str ''N/A''\<rparr>]\<rparr>)"
  | (null)
      "http_get env url (Suc (length (trace w))) = Returns JNull"
      "recursive_workflow svc env (Some url) depth w =
         (Returns (),
          w\<lparr>trace := trace w @ [Enter (Some url) depth, HttpGet url],
            logfile := logfile w @ [(INFO, ApiCalled url)]\<rparr>)"
  | (aborted) data x xs e w2 where
      "http_get env url (Suc (length (trace w))) = Returns data" "data \<noteq> JNull"
      "find_numbers data = x # xs"
      "slack_post env (Num x) (length (trace w) + 3) = Raises e" "e \<noteq> RequestException"
      "trace w2 = trace w @ [Enter (Some url) depth, HttpGet url,
          SmtpSend (Num x), SlackPost (Num x)]"
      "dashboard_data w2 = dashboard_data w"
      "recursive_workflow svc env (Some url) depth w = (Raises e, w2)"
  | (continues) data next_api w3 ses r where
      "http_get env url (Suc (length (trace w))) = Returns data" "data \<noteq> JNull"
      "select_next_api (config svc) (find_numbers data) (depth + 1) = Inr next_api"
      "trace w3 = trace w @ [Enter (Some url) depth, HttpGet url] @ ses @
          [Select (find_numbers data) (depth + 1)]"
      "depths ses = []" "fetches ses = 0"
      "dashboard_data w3 = dashboard_data w @ [r]"
      "recursive_workflow svc env (Some url) depth w =
         recursive_workflow svc env next_api (depth + 1) w3"
proof -
  let ?w0 = "called (Enter (Some url) depth) w"
  have len0: "length (trace ?w0) = Suc (length (trace w))"
    by (simp add: called_def)
  show ?thesis
  proof (cases "http_get env url (Suc (length (trace w)))")
    case (Raises e)
    show ?thesis
    proof (cases "e = RequestException")
      case True
      with Raises have g: "http_get env url (length (trace ?w0)) = Raises RequestException"
        by (simp add: len0)
      have "recursive_workflow svc env (Some url) depth w =
          (Returns (), snd (fetch_data env url ?w0))"
        unfolding recursive_workflow_Some fetch_data_RequestException [OF g] by simp
      then show ?thesis
        using Raises True
        by (intro failed)
           (simp_all add: fetch_data_RequestException [OF g], simp add: called_def)
    next
      case False
      with Raises have g: "http_get env url (length (trace ?w0)) = Raises e"
        by (simp add: len0)
      have "recursive_workflow svc env (Some url) depth w =
          (Raises e, snd (fetch_data env url ?w0))"
        unfolding recursive_workflow_Some fetch_data_other [OF g False] by simp
      then show ?thesis
        using Raises False
        by (intro raised [of e])
           (simp_all add: fetch_data_other [OF g False], simp add: called_def)
    qed
  next
    case (Returns data)
    then have g: "http_get env url (length (trace ?w0)) = Returns data"
      by (simp add: len0)
    let ?w1 = "logging INFO (ApiCalled url) (called (HttpGet url) ?w0)"
    have f: "fetch_data env url ?w0 = (Returns data, ?w1)"
      by (rule fetch_data_Returns [OF g])
    have tr1: "trace ?w1 = trace w @ [Enter (Some url) depth, HttpGet url]"
      by (simp add: called_def logging_def)
    have dd1: "dashboard_data ?w1 = dashboard_data w"
      by (simp add: called_def logging_def)
    show ?thesis
    proof (cases "data = JNull")
      case True
      have "recursive_workflow svc env (Some url) depth w = (Returns (), ?w1)"
        unfolding recursive_workflow_Some f using True by simp
      then show ?thesis
        using Returns True
        by (intro null) (simp_all add: called_def logging_def)
    next
      case False
      show ?thesis
      proof (cases rule: process_cases [of data env ?w1 svc url])
        case (escaped x xs e w2)
        show ?thesis
        proof (rule aborted [OF Returns False escaped(1) _ escaped(3)])
          show "slack_post env (Num x) (length (trace w) + 3) = Raises e"
            using escaped(2) by (simp add: tr1 numeral_3_eq_3)
          show "trace w2 = trace w @ [Enter (Some url) depth, HttpGet url,
              SmtpSend (Num x), SlackPost (Num x)]"
            by (simp add: escaped(4) tr1)
          show "dashboard_data w2 = dashboard_data w"
            by (simp add: escaped(5) dd1)
          show "recursive_workflow svc env (Some url) depth w = (Raises e, w2)"
            unfolding recursive_workflow_Some f using False by (simp add: escaped(6))
        qed
      next
        case (recorded w2 ses r)
        obtain next_api where
          s: "select_next_api (config svc) (find_numbers data) (depth + 1) = Inr next_api"
          using select_next_api_Inr by blast
        show ?thesis
        proof (rule continues [OF Returns False s _ recorded(2) recorded(3)])
          show "trace (called (Select (find_numbers data) (depth + 1)) w2) =
              trace w @ [Enter (Some url) depth, HttpGet url] @ ses @
              [Select (find_numbers data) (depth + 1)]"
            by (simp add: called_simps recorded(1) tr1)
          show "dashboard_data (called (Select (find_numbers data) (depth + 1)) w2) =
              dashboard_data w @ [r]"
            by (simp add: called_simps recorded(4) dd1)
          show "recursive_workflow svc env (Some url) depth w =
              recursive_workflow svc env next_api (depth + 1)
                (called (Select (find_numbers data) (depth + 1)) w2)"
            unfolding recursive_workflow_Some f using False by (simp add: recorded(5) s)
        qed
      qed
    qed
  qed
qed

section \<open>Whole runs\<close>

lemma extendsI:
  "trace w' = trace w @ es \<Longrightarrow> dashboard_data w' = dashboard_data w @ rs \<Longrightarrow> extends w w'"
  by (simp add: extends_def new_events_def new_records_def)

lemma new_events_eq: "trace w' = trace w @ es \<Longrightarrow> new_events w w' = es"
  by (simp add: new_events_def)

lemma new_records_eq: "dashboard_data w' = dashboard_data w @ rs \<Longrightarrow> new_records w w' = rs"
  by (simp add: new_records_def)

lemma extends_trans:
  assumes "trace w3 = trace w @ es" "dashboard_data w3 = dashboard_data w @ rs" "extends w3 w'"
  shows "extends w w'"
    and "new_events w w' = es @ new_events w3 w'"
    and "new_records w w' = rs @ new_records w3 w'"
proof -
  have t: "trace w' = trace w @ (es @ new_events w3 w')"
    using assms by (simp add: extends_def)
  have d: "dashboard_data w' = dashboard_data w @ (rs @ new_records w3 w')"
    using assms by (simp add: extends_def)
  show "extends w w'" by (rule extendsI [OF t d])
  show "new_events w w' = es @ new_events w3 w'" by (rule new_events_eq [OF t])
  show "new_records w w' = rs @ new_records w3 w'" by (rule new_records_eq [OF d])
qed

lemma run_extends: "extends w (snd (recursive_workflow svc env api_url depth w))"
proof (induction api_url depth w rule: workflow_induct [where svc = svc])
  case (None depth w)
  show ?case
    by (rule extendsI [where es = "[Enter None depth]" and rs = "[]"])
       (simp_all add: recursive_workflow_None)
next
  case (Some url depth w)
  show ?case
  proof (cases rule: recursive_workflow_cases [of env url w svc depth])
    case (raised e)
    show ?thesis
      by (rule extendsI [where es = "[Enter (Some url) depth, HttpGet url]" and rs = "[]"])
         (simp_all add: raised(3))
  next
    case failed
    show ?thesis
      by (rule extendsI [where es = "[Enter (Some url) depth, HttpGet url]"])
         (simp_all add: failed(2))
  next
    case null
    show ?thesis
      by (rule extendsI [where es = "[Enter (Some url) depth, HttpGet url]" and rs = "[]"])
         (simp_all add: null(2))
  next
    case (aborted data x xs e w2)
    show ?thesis
      by (rule extendsI [where rs = "[]"]) (simp_all add: aborted)
  next
    case (continues data next_api w3 ses r)
    show ?thesis
      unfolding continues(8)
      by (rule extends_trans(1) [OF continues(4) continues(7) Some [OF continues(3)]])
  qed
qed

section \<open>Failed fetches and empty samples\<close>



text \<open>
  Claim C7, as stated, fails on a body that decodes to \<open>None\<close>: the fetch succeeds and
  the extraction of \<open>None\<close> is empty, but \<open>recursive_workflow\<close> takes the body for the
  \<open>None\<close> of a failed fetch and returns without a record.
\<close>

theorem null_body_leaves_no_record:
  "http_get (quiet_env JNull) initial_api 1 = Returns JNull
   \<and> find_numbers JNull = []
   \<and> recursive_workflow (service0 3) (quiet_env JNull) (Some initial_api) 0 world0
       = (Returns (),
          \<lparr>dashboard_data = [], logfile = [(INFO, ApiCalled initial_api)],
            trace = [Enter (Some initial_api) 0, HttpGet initial_api]\<rparr>)"
  by (simp add: recursive_workflow_Some fetch_data_def quiet_env_def world0_def
      called_def logging_def)

text \<open>
  Claim C7, amended: when the fetch returns a body other than \<open>None\<close> whose extraction
  is empty, the iteration appends one record with \<open>N/A\<close> for the representative value,
  maximum, minimum and average and the status \<open>OK\<close>, calls no sink, and the selection
  that follows returns \<open>None\<close>, so that the run ends with this iteration.
\<close>

theorem empty_samples_last_iteration:
  assumes "http_get env url (Suc (length (trace w))) = Returns data"
    and "data \<noteq> JNull" and "find_numbers data = []"
  shows "recursive_workflow svc env (Some url) depth w =
         (Returns (),
          w\<lparr>trace := trace w @ [Enter (Some url) depth, HttpGet url,
                Select [] (depth + 1), Enter None (depth + 1)],
            logfile := logfile w @ [(INFO, ApiCalled url), (INFO, WorkflowEnd)],
            dashboard_data := dashboard_data w @
              [\<lparr>timestamp = now env (length (trace w) + 2), api = url,
                val = Str ''N/A'', status = ''OK'',
                max_value = Str ''N/A'', min_value = Str ''N/A'',
                avg_value = Str ''N/A''\<rparr>]\<rparr>)
       \<and> select_next_api (config svc) (find_numbers data) (depth + 1) = Inr None"
proof -
  let ?w0 = "called (Enter (Some url) depth) w"
  let ?w1 = "logging INFO (ApiCalled url) (called (HttpGet url) ?w0)"
  have g: "http_get env url (length (trace ?w0)) = Returns data"
    using assms(1) by (simp add: called_simps)
  have s: "select_next_api (config svc) [] (depth + 1) = Inr None"
    by (simp add: select_next_api_eq)
  have "recursive_workflow svc env (Some url) depth w =
      recursive_workflow svc env None (depth + 1)
        (called (Select [] (depth + 1)) (snd (process svc env url data ?w1)))"
    unfolding recursive_workflow_Some fetch_data_Returns [OF g]
    using assms(2) by (simp add: process_empty [OF assms(3)] s)
  then show ?thesis
    by (simp add: recursive_workflow_None process_empty [OF assms(3)] assms(3) s
        called_def logging_def)
qed

theorem empty_samples_last_iteration_witness:
  "recursive_workflow (service0 3) (quiet_env (JDict [(''x'', JStr ''no numbers here'')]))
     (Some initial_api) 0 world0 =
   (Returns (),
    \<lparr>dashboard_data =
       [\<lparr>timestamp = ''now'', api = initial_api, val = Str ''N/A'', status = ''OK'',
         max_value = Str ''N/A'', min_value = Str ''N/A'', avg_value = Str ''N/A''\<rparr>],
      logfile = [(INFO, ApiCalled initial_api), (INFO, WorkflowEnd)],
      trace = [Enter (Some initial_api) 0, HttpGet initial_api, Select [] 1, Enter None 1]\<rparr>)"
proof -
  let ?data = "JDict [(''x'', JStr ''no numbers here'')]"
  have h1: "http_get (quiet_env ?data) initial_api (Suc (length (trace world0))) = Returns ?data"
    by (simp add: quiet_env_def)
  have h2: "?data \<noteq> JNull" by simp
  have h3: "find_numbers ?data = []" by simp
  have "recursive_workflow (service0 3) (quiet_env ?data) (Some initial_api) 0 world0 =
         (Returns (),
          world0\<lparr>trace := trace world0 @ [Enter (Some initial_api) 0, HttpGet initial_api,
                Select [] (0 + 1), Enter None (0 + 1)],
            logfile := logfile world0 @ [(INFO, ApiCalled initial_api), (INFO, WorkflowEnd)],
            dashboard_data := dashboard_data world0 @
              [\<lparr>timestamp = now (quiet_env ?data) (length (trace world0) + 2),
                api = initial_api, val = Str ''N/A'', status = ''OK'',
                max_value = Str ''N/A'', min_value = Str ''N/A'',
                avg_value = Str ''N/A''\<rparr>]\<rparr>)"
    using empty_samples_last_iteration [OF h1 h2 h3, of "service0 3" 0] by blast
  then show ?thesis
    by (simp add: quiet_env_def world0_def)
qed

section \<open>Counting fetches, records and depths\<close>

lemma run_counts:
  "length (new_records w (snd (recursive_workflow svc env api_url depth w)))
     \<le> fetches (new_events w (snd (recursive_workflow svc env api_url depth w)))
   \<and> fetches (new_events w (snd (recursive_workflow svc env api_url depth w)))
     \<le> (case api_url of None \<Rightarrow> 0
         | Some u \<Rightarrow> nat (max 1 (MAX_DEPTH (config svc) - depth)))"
proof (induction api_url depth w rule: workflow_induct [where svc = svc])
  case (None depth w)
  show ?case
    by (simp add: recursive_workflow_None new_events_def new_records_def)
next
  case (Some url depth w)
  show ?case
  proof (cases rule: recursive_workflow_cases [of env url w svc depth])
    case (raised e)
    then show ?thesis
      by (simp add: new_events_def new_records_def)
  next
    case failed
    then show ?thesis
      by (simp add: new_events_def new_records_def)
  next
    case null
    then show ?thesis
      by (simp add: new_events_def new_records_def)
  next
    case (aborted data x xs e w2)
    then show ?thesis
      by (simp add: new_events_def new_records_def)
  next
    case (continues data next_api w3 ses r)
    let ?w' = "snd (recursive_workflow svc env next_api (depth + 1) w3)"
    note ext = run_extends [of w3 svc env next_api "depth + 1"]
    have ev: "new_events w ?w' =
        ([Enter (Some url) depth, HttpGet url] @ ses @
          [Select (find_numbers data) (depth + 1)]) @ new_events w3 ?w'"
      by (rule extends_trans(2) [OF continues(4) continues(7) ext])
    have re: "new_records w ?w' = [r] @ new_records w3 ?w'"
      by (rule extends_trans(3) [OF continues(4) continues(7) ext])
    have f: "fetches (new_events w ?w') = Suc (fetches (new_events w3 ?w'))"
      by (simp add: ev fetches_append continues(6))
    have l: "length (new_records w ?w') = Suc (length (new_records w3 ?w'))"
      by (simp add: re)
    note ih = Some [OF continues(3), of w3]
    have b: "Suc (case next_api of None \<Rightarrow> 0
          | Some u \<Rightarrow> nat (max 1 (MAX_DEPTH (config svc) - (depth + 1))))
        \<le> nat (max 1 (MAX_DEPTH (config svc) - depth))"
      using select_next_api_Some_depth [of "config svc" "find_numbers data" "depth + 1"]
        continues(3)
      by (cases next_api) auto
    show ?thesis
      unfolding continues(8) using ih b by (simp add: f l)
  qed
qed

lemma run_depths:
  "sorted (depths (new_events w (snd (recursive_workflow svc env api_url depth w))))
   \<and> (\<forall>d \<in> set (depths (new_events w (snd (recursive_workflow svc env api_url depth w)))).
        depth \<le> d \<and>
        d \<le> (case api_url of None \<Rightarrow> depth
              | Some u \<Rightarrow> max (depth + 1) (MAX_DEPTH (config svc))))"
proof (induction api_url depth w rule: workflow_induct [where svc = svc])
  case (None depth w)
  show ?case
    by (simp add: recursive_workflow_None new_events_def)
next
  case (Some url depth w)
  show ?case
  proof (cases rule: recursive_workflow_cases [of env url w svc depth])
    case (raised e)
    then show ?thesis
      by (simp add: new_events_def)
  next
    case failed
    then show ?thesis
      by (simp add: new_events_def)
  next
    case null
    then show ?thesis
      by (simp add: new_events_def)
  next
    case (aborted data x xs e w2)
    then show ?thesis
      by (simp add: new_events_def)
  next
    case (continues data next_api w3 ses r)
    let ?w' = "snd (recursive_workflow svc env next_api (depth + 1) w3)"
    note ext = run_extends [of w3 svc env next_api "depth + 1"]
    have ev: "new_events w ?w' =
        ([Enter (Some url) depth, HttpGet url] @ ses @
          [Select (find_numbers data) (depth + 1)]) @ new_events w3 ?w'"
      by (rule extends_trans(2) [OF continues(4) continues(7) ext])
    have d: "depths (new_events w ?w') = depth # depths (new_events w3 ?w')"
      by (simp add: ev depths_append continues(5))
    note ih = Some [OF continues(3), of w3]
    have b: "(case next_api of None \<Rightarrow> depth + 1
          | Some u \<Rightarrow> max (depth + 1 + 1) (MAX_DEPTH (config svc)))
        \<le> max (depth + 1) (MAX_DEPTH (config svc))"
      using select_next_api_Some_depth [of "config svc" "find_numbers data" "depth + 1"]
        continues(3)
      by (cases next_api) auto
    show ?thesis
      unfolding continues(8) using ih b by (fastforce simp: d)
  qed
qed

lemma run_complete:
  assumes "\<forall>u t. http_get env u t \<noteq> Returns JNull"
  shows "fst (recursive_workflow svc env api_url depth w) = Returns () \<Longrightarrow>
    length (new_records w (snd (recursive_workflow svc env api_url depth w)))
      = fetches (new_events w (snd (recursive_workflow svc env api_url depth w)))"
proof (induction api_url depth w rule: workflow_induct [where svc = svc])
  case (None depth w)
  show ?case
    by (simp add: recursive_workflow_None new_events_def new_records_def)
next
  case (Some url depth w)
  show ?case
  proof (cases rule: recursive_workflow_cases [of env url w svc depth])
    case (raised e)
    then show ?thesis
      using Some.prems by simp
  next
    case failed
    then show ?thesis
      by (simp add: new_events_def new_records_def)
  next
    case null
    then show ?thesis
      using assms by simp
  next
    case (aborted data x xs e w2)
    then show ?thesis
      using Some.prems by simp
  next
    case (continues data next_api w3 ses r)
    let ?w' = "snd (recursive_workflow svc env next_api (depth + 1) w3)"
    note ext = run_extends [of w3 svc env next_api "depth + 1"]
    have ev: "new_events w ?w' =
        ([Enter (Some url) depth, HttpGet url] @ ses @
          [Select (find_numbers data) (depth + 1)]) @ new_events w3 ?w'"
      by (rule extends_trans(2) [OF continues(4) continues(7) ext])
    have re: "new_records w ?w' = [r] @ new_records w3 ?w'"
      by (rule extends_trans(3) [OF continues(4) continues(7) ext])
    have f: "fetches (new_events w ?w') = Suc (fetches (new_events w3 ?w'))"
      by (simp add: ev fetches_append continues(6))
    have l: "length (new_records w ?w') = Suc (length (new_records w3 ?w'))"
      by (simp add: re)
    have "fst (recursive_workflow svc env next_api (depth + 1) w3) = Returns ()"
      using Some.prems by (simp add: continues(8))
    from Some.IH [OF continues(3) this] show ?thesis
      unfolding continues(8) by (simp add: f l)
  qed
qed


text \<open>
  Claim C5, as stated, fails: a fetch that completes with a body that decodes to \<open>None\<close>
  is one fetch of the run and appends no record, neither in \<open>fetch_data\<close> nor in the
  iteration.
\<close>

theorem null_body_fetch_without_record:
  "fst (fetch_data (quiet_env JNull) initial_api (called (Enter (Some initial_api) 0) world0))
     = Returns JNull
   \<and> fetches (new_events world0 (snd (run (service0 3) (quiet_env JNull) world0))) = 1
   \<and> new_records world0 (snd (run (service0 3) (quiet_env JNull) world0)) = []"
  by (simp add: run_def recursive_workflow_Some fetch_data_def quiet_env_def world0_def
      called_def logging_def new_events_def new_records_def)

text \<open>
  Claim C5, amended: a run never appends more records than it makes fetches; in a run
  that returns and in which no fetch returns \<open>None\<close> as its body, the records appended
  are exactly as many as the fetches. A fetch that fails with a request error appends
  its one record inside \<open>fetch_data\<close>; a fetch that returns a body appends none there, and
  the iteration that completes on it appends one.
\<close>

theorem one_record_per_fetch:
  "length (new_records w (snd (recursive_workflow svc env api_url depth w)))
     \<le> fetches (new_events w (snd (recursive_workflow svc env api_url depth w)))
   \<and> ((\<forall>u t. http_get env u t \<noteq> Returns JNull)
        \<and> fst (recursive_workflow svc env api_url depth w) = Returns () \<longrightarrow>
      length (new_records w (snd (recursive_workflow svc env api_url depth w)))
        = fetches (new_events w (snd (recursive_workflow svc env api_url depth w))))
   \<and> (http_get env url (length (trace w)) = Raises RequestException \<longrightarrow>
      length (dashboard_data (snd (fetch_data env url w))) = Suc (length (dashboard_data w)))
   \<and> (http_get env url (length (trace w)) = Returns body \<longrightarrow>
      dashboard_data (snd (fetch_data env url w)) = dashboard_data w)
   \<and> (fst (process svc env url data w) = Returns numbers \<longrightarrow>
      length (dashboard_data (snd (process svc env url data w)))
        = Suc (length (dashboard_data w)))"
proof -
  have a: "length (dashboard_data (snd (fetch_data env url w))) = Suc (length (dashboard_data w))"
    if "http_get env url (length (trace w)) = Raises RequestException"
    by (simp add: fetch_data_RequestException [OF that])
  have b: "dashboard_data (snd (fetch_data env url w)) = dashboard_data w"
    if "http_get env url (length (trace w)) = Returns body"
    by (simp add: fetch_data_Returns [OF that] called_simps logging_simps)
  have c: "length (dashboard_data (snd (process svc env url data w)))
        = Suc (length (dashboard_data w))"
    if "fst (process svc env url data w) = Returns numbers"
    using that by (cases rule: process_cases [of data env w svc url]) simp_all
  have d: "length (new_records w (snd (recursive_workflow svc env api_url depth w)))
     \<le> fetches (new_events w (snd (recursive_workflow svc env api_url depth w)))"
    using run_counts [of w svc env api_url depth] by (rule conjunct1)
  have e: "length (new_records w (snd (recursive_workflow svc env api_url depth w)))
        = fetches (new_events w (snd (recursive_workflow svc env api_url depth w)))"
    if "(\<forall>u t. http_get env u t \<noteq> Returns JNull)
        \<and> fst (recursive_workflow svc env api_url depth w) = Returns ()"
    using that run_complete [of env svc api_url depth w] by (elim conjE)
  show ?thesis
    using a b c d e by (intro conjI impI)
qed

theorem one_record_per_fetch_witness:
  "fst (recursive_workflow (service0 1) (quiet_env (JDict [(''a'', JInt 10)]))
        (Some initial_api) 0 world0) = Returns ()
   \<and> length (new_records world0
        (snd (recursive_workflow (service0 1) (quiet_env (JDict [(''a'', JInt 10)]))
           (Some initial_api) 0 world0)))
     = fetches (new_events world0
        (snd (recursive_workflow (service0 1) (quiet_env (JDict [(''a'', JInt 10)]))
           (Some initial_api) 0 world0)))
   \<and> fetches (new_events world0
        (snd (recursive_workflow (service0 1) (quiet_env (JDict [(''a'', JInt 10)]))
           (Some initial_api) 0 world0))) = 1"
  (is "fst ?R = Returns () \<and> _")
proof -
  have h1: "\<forall>u t. http_get (quiet_env (JDict [(''a'', JInt 10)])) u t \<noteq> Returns JNull"
    by (simp add: quiet_env_def)
  have h2: "fst ?R = Returns ()"
    by code_simp
  have "length (new_records world0 (snd ?R)) = fetches (new_events world0 (snd ?R))"
    using h1 h2
      one_record_per_fetch [of world0 "service0 1" "quiet_env (JDict [(''a'', JInt 10)])"
        "Some initial_api" 0]
    by blast
  moreover have "fetches (new_events world0 (snd ?R)) = 1"
    by code_simp
  ultimately show ?thesis
    using h2 by blast
qed

text \<open>
  Claim C6, as stated, fails for a bound below 1: \<open>recursive_workflow\<close> tests the depth
  only in \<open>select_next_api\<close>, after the first iteration. With \<open>MAX_DEPTH = 0\<close> the run
  from depth 0 appends one record and makes its last call at depth 1.
\<close>

theorem depth_bound_exceeded_at_zero:
  "MAX_DEPTH (config (service0 0)) = 0
   \<and> depths (new_events world0
        (snd (recursive_workflow (service0 0) (quiet_env (JDict [(''a'', JInt 10)]))
           (Some initial_api) 0 world0))) = [0, 1]
   \<and> length (new_records world0
        (snd (recursive_workflow (service0 0) (quiet_env (JDict [(''a'', JInt 10)]))
           (Some initial_api) 0 world0))) = 1"
  by code_simp

text \<open>
  Claim C6, amended: in a run started at depth 0 the depth arguments never decrease and
  stay between 0 and the larger of 1 and \<open>MAX_DEPTH\<close>; the run makes at most that many
  fetches and appends at most that many records, and exactly one record when the initial
  fetch fails with a request error. For \<open>MAX_DEPTH\<close> of at least 1 these are the bounds
  of the claim. The run ends: \<open>recursive_workflow\<close> is a total function, by the
  termination proof of its definition.
\<close>

theorem run_bounded:
  "sorted (depths (new_events w (snd (recursive_workflow svc env (Some url) 0 w))))
   \<and> (\<forall>d \<in> set (depths (new_events w (snd (recursive_workflow svc env (Some url) 0 w)))).
        0 \<le> d \<and> d \<le> max 1 (MAX_DEPTH (config svc)))
   \<and> fetches (new_events w (snd (recursive_workflow svc env (Some url) 0 w)))
        \<le> nat (max 1 (MAX_DEPTH (config svc)))
   \<and> length (new_records w (snd (recursive_workflow svc env (Some url) 0 w)))
        \<le> nat (max 1 (MAX_DEPTH (config svc)))
   \<and> (http_get env url (Suc (length (trace w))) = Raises RequestException \<longrightarrow>
        length (new_records w (snd (recursive_workflow svc env (Some url) 0 w))) = 1)
   \<and> (1 \<le> MAX_DEPTH (config svc) \<longrightarrow>
        (\<forall>d \<in> set (depths (new_events w (snd (recursive_workflow svc env (Some url) 0 w)))).
           d \<le> MAX_DEPTH (config svc))
        \<and> length (new_records w (snd (recursive_workflow svc env (Some url) 0 w)))
            \<le> nat (MAX_DEPTH (config svc)))"
proof -
  let ?w' = "snd (recursive_workflow svc env (Some url) 0 w)"
  have d: "sorted (depths (new_events w ?w'))"
    and b: "\<forall>d \<in> set (depths (new_events w ?w')). 0 \<le> d \<and> d \<le> max 1 (MAX_DEPTH (config svc))"
    using run_depths [of w svc env "Some url" 0] by simp_all
  have f: "fetches (new_events w ?w') \<le> nat (max 1 (MAX_DEPTH (config svc)))"
    and l: "length (new_records w ?w') \<le> fetches (new_events w ?w')"
    using run_counts [of w svc env "Some url" 0] by simp_all
  have e: "length (new_records w ?w') = 1"
    if "http_get env url (Suc (length (trace w))) = Raises RequestException"
    using that
    by (cases rule: recursive_workflow_cases [of env url w svc 0])
       (simp_all add: new_records_def)
  have m: "max 1 (MAX_DEPTH (config svc)) = MAX_DEPTH (config svc)"
    if "1 \<le> MAX_DEPTH (config svc)"
    using that by simp
  from l f have l': "length (new_records w ?w') \<le> nat (max 1 (MAX_DEPTH (config svc)))"
    by simp
  have b': "\<forall>d \<in> set (depths (new_events w ?w')). d \<le> MAX_DEPTH (config svc)"
    if "1 \<le> MAX_DEPTH (config svc)"
    using b m [OF that] by simp
  have l'': "length (new_records w ?w') \<le> nat (MAX_DEPTH (config svc))"
    if "1 \<le> MAX_DEPTH (config svc)"
    using l' m [OF that] by simp
  show ?thesis
    using d b f l' e b' l'' by (intro conjI impI)
qed

theorem run_bounded_witness:
  "(1::int) \<le> MAX_DEPTH (config (service0 1))
   \<and> length (new_records world0
        (snd (recursive_workflow (service0 1) (quiet_env (JDict [(''a'', JInt 10)]))
           (Some initial_api) 0 world0))) \<le> nat (MAX_DEPTH (config (service0 1)))
   \<and> length (new_records world0
        (snd (recursive_workflow (service0 1) (quiet_env (JDict [(''a'', JInt 10)]))
           (Some initial_api) 0 world0))) = 1
   \<and> length (new_records world0
        (snd (recursive_workflow (service0 3)
           ((quiet_env JNull)\<lparr>http_get := (\<lambda>u t. Raises RequestException)\<rparr>)
           (Some initial_api) 0 world0))) = 1"
  (is "_ \<and> length (new_records world0 ?w') \<le> _ \<and> _ \<and> length (new_records world0 ?w'') = 1")
proof -
  have h: "(1::int) \<le> MAX_DEPTH (config (service0 1))"
    by (simp add: service0_def)
  have a: "length (new_records world0 ?w') \<le> nat (MAX_DEPTH (config (service0 1)))"
    using h run_bounded [of world0 "service0 1" "quiet_env (JDict [(''a'', JInt 10)])" initial_api]
    by blast
  have b: "length (new_records world0 ?w') = 1"
    by code_simp
  have g: "http_get ((quiet_env JNull)\<lparr>http_get := (\<lambda>u t. Raises RequestException)\<rparr>)
      initial_api (Suc (length (trace world0))) = Raises RequestException"
    by (simp add: quiet_env_def)
  have c: "length (new_records world0 ?w'') = 1"
    using g run_bounded [of world0 "service0 3"
        "(quiet_env JNull)\<lparr>http_get := (\<lambda>u t. Raises RequestException)\<rparr>" initial_api]
    by blast
  show ?thesis
    using h a b c by blast
qed

section \<open>Iterations on samples\<close>

lemma foldl_max_in: "foldl (\<lambda>m y. if num y > num m then y else m) x xs \<in> set (x # xs)"
  by (induction xs arbitrary: x) auto

lemma foldl_max_ge_start: "num x \<le> num (foldl (\<lambda>m y. if num y > num m then y else m) x xs)"
proof (induction xs arbitrary: x)
  case Nil
  show ?case by simp
next
  case (Cons y ys)
  show ?case
    using Cons [of y] Cons [of x] by (cases "num x < num y") simp_all
qed

lemma foldl_max_ge:
  "y \<in> set (x # xs) \<Longrightarrow> num y \<le> num (foldl (\<lambda>m y. if num y > num m then y else m) x xs)"
proof (induction xs arbitrary: x)
  case Nil
  then show ?case by simp
next
  case (Cons z zs)
  show ?case
  proof (cases "y \<in> set zs")
    case True
    then show ?thesis
      using Cons.IH [of z] Cons.IH [of x] by simp
  next
    case False
    with Cons.prems have "y = x \<or> y = z" by auto
    then show ?thesis
      using foldl_max_ge_start [of "if num x < num z then z else x" zs]
      by (auto split: if_splits)
  qed
qed

lemma foldl_min_in: "foldl (\<lambda>m y. if num y < num m then y else m) x xs \<in> set (x # xs)"
  by (induction xs arbitrary: x) auto

lemma foldl_min_le_start: "num (foldl (\<lambda>m y. if num y < num m then y else m) x xs) \<le> num x"
proof (induction xs arbitrary: x)
  case Nil
  show ?case by simp
next
  case (Cons y ys)
  show ?case
    using Cons [of y] Cons [of x] by (cases "num y < num x") simp_all
qed

lemma foldl_min_le:
  "y \<in> set (x # xs) \<Longrightarrow> num (foldl (\<lambda>m y. if num y < num m then y else m) x xs) \<le> num y"
proof (induction xs arbitrary: x)
  case Nil
  then show ?case by simp
next
  case (Cons z zs)
  show ?case
  proof (cases "y \<in> set zs")
    case True
    then show ?thesis
      using Cons.IH [of z] Cons.IH [of x] by simp
  next
    case False
    with Cons.prems have "y = x \<or> y = z" by auto
    then show ?thesis
      using foldl_min_le_start [of "if num z < num x then z else x" zs]
      by (auto split: if_splits)
  qed
qed

lemma round_half_even_near: "\<bar>of_int (round_half_even x) - x\<bar> \<le> 1 / 2"
proof -
  have "of_int \<lfloor>x\<rfloor> \<le> x" and "x < of_int \<lfloor>x\<rfloor> + 1"
    by linarith+
  then show ?thesis
    by (auto simp: round_half_even_def Let_def)
qed

lemma py_round2_near: "\<bar>py_round2 x - x\<bar> \<le> 1 / 200"
proof -
  have "\<bar>of_int (round_half_even (x * 100)) - x * 100\<bar> \<le> 1 / 2"
    by (rule round_half_even_near)
  then show ?thesis
    by (simp add: py_round2_def abs_le_iff field_simps)
qed

text \<open>
  What the sinks contain: \<open>send_email\<close> and \<open>update_google_sheet\<close> return whatever their
  transport raises, \<open>update_google_sheet\<close> does nothing without a handle, and
  \<open>send_slack\<close> returns on a request error.
\<close>

lemma sink_errors_contained:
  "fst (send_email env v w) = Returns ()
   \<and> fst (update_google_sheet svc env v w) = Returns ()
   \<and> (gs_sheet svc = None \<longrightarrow> update_google_sheet svc env v w = (Returns (), w))
   \<and> (slack_post env v (length (trace w)) = Raises RequestException \<longrightarrow>
        fst (send_slack env v w) = Returns ())"
proof -
  have "update_google_sheet svc env v w = (Returns (), w)" if "gs_sheet svc = None"
    using that by (simp add: update_google_sheet_def)
  then show ?thesis
    by (simp add: send_email_fst update_google_sheet_fst send_slack_fst)
qed

text \<open>
  An iteration on samples whose three sink calls return: the sinks are called with the
  first sample, and the record holds the first sample, the largest and the smallest
  sample, the mean rounded to hundredths, and the status \<open>ALERTE\<close> exactly when the first
  sample has reached the threshold.
\<close>

lemma iteration_record:
  assumes "find_numbers data = x # xs" and "fst (notify svc env (Num x) w) = Returns ()"
  shows "\<exists>w1 r a.
      process svc env url data w = (Returns (x # xs), w1)
      \<and> dashboard_data w1 = dashboard_data w @ [r]
      \<and> new_events w w1 = [SmtpSend (Num x), SlackPost (Num x)] @
           (case gs_sheet svc of None \<Rightarrow> [] | Some sh \<Rightarrow> [SheetAppend (Num x)])
      \<and> val r = Num x
      \<and> status r = (if num x \<ge> of_int (ALERT_THRESHOLD (config svc)) then ''ALERTE'' else ''OK'')
      \<and> (\<exists>m \<in> set (x # xs). max_value r = Num m \<and> (\<forall>y \<in> set (x # xs). num y \<le> num m))
      \<and> (\<exists>m \<in> set (x # xs). min_value r = Num m \<and> (\<forall>y \<in> set (x # xs). num m \<le> num y))
      \<and> avg_value r = Num (PFloat a) \<and> \<bar>a - mean (x # xs)\<bar> \<le> 1 / 200
      \<and> a = of_int (round_half_even (mean (x # xs) * 100)) / 100"
proof -
  obtain u w0 where n: "notify svc env (Num x) w = (Returns u, w0)"
    using assms(2) by (cases "notify svc env (Num x) w") auto
  let ?mx = "foldl (\<lambda>m y. if num y > num m then y else m) x xs"
  let ?mn = "foldl (\<lambda>m y. if num y < num m then y else m) x xs"
  let ?a = "py_round2 (mean (x # xs))"
  let ?r = "\<lparr>timestamp = now env (length (trace w0)), api = url, val = Num x,
      status = (if num x \<ge> of_int (ALERT_THRESHOLD (config svc)) then ''ALERTE'' else ''OK''),
      max_value = Num ?mx, min_value = Num ?mn, avg_value = Num (PFloat ?a)\<rparr>"
  let ?w1 = "(if num x \<ge> of_int (ALERT_THRESHOLD (config svc))
      then logging WARNING (CriticalValue (Num x)) w0 else w0)
      \<lparr>dashboard_data := dashboard_data w0 @ [?r]\<rparr>"
  have p: "process svc env url data w = (Returns (x # xs), ?w1)"
    by (simp add: process_nonempty [OF assms(1)] n)
  have tr: "trace w0 = trace w @ [SmtpSend (Num x), SlackPost (Num x)] @
      (case gs_sheet svc of None \<Rightarrow> [] | Some sh \<Rightarrow> [SheetAppend (Num x)])"
    using notify_trace [of svc env "Num x" w] by (simp add: n)
  have dd: "dashboard_data ?w1 = dashboard_data w @ [?r]"
    using notify_dd [of svc env "Num x" w] by (simp add: n)
  have ev: "new_events w ?w1 = [SmtpSend (Num x), SlackPost (Num x)] @
      (case gs_sheet svc of None \<Rightarrow> [] | Some sh \<Rightarrow> [SheetAppend (Num x)])"
    by (rule new_events_eq) (simp add: tr logging_simps)
  have mx: "\<exists>m \<in> set (x # xs). max_value ?r = Num m \<and> (\<forall>y \<in> set (x # xs). num y \<le> num m)"
    using foldl_max_in [of x xs] foldl_max_ge [of _ x xs] by auto
  have mn: "\<exists>m \<in> set (x # xs). min_value ?r = Num m \<and> (\<forall>y \<in> set (x # xs). num m \<le> num y)"
    using foldl_min_in [of x xs] foldl_min_le [of _ x xs] by auto
  have av: "\<bar>?a - mean (x # xs)\<bar> \<le> 1 / 200"
    by (rule py_round2_near)
  have st: "val ?r = Num x"
    "status ?r = (if num x \<ge> of_int (ALERT_THRESHOLD (config svc)) then ''ALERTE'' else ''OK'')"
    "avg_value ?r = Num (PFloat ?a)"
    by simp_all
  have a: "?a = of_int (round_half_even (mean (x # xs) * 100)) / 100"
    by (simp add: py_round2_def)
  show ?thesis
    using p dd ev st mx mn av a by blast
qed

text \<open>
  The documented scenario: the response \<open>{"a": 10, "b": {"c": 20, "d": 80}}\<close> with the
  threshold 1000 gives the samples 10, 20 and 80, the record with the value 10, the
  maximum 80, the minimum 10, the average 36.67 and the status \<open>OK\<close>, and endpoint A.
\<close>

lemma documented_scenario:
  "find_numbers (JDict [(''a'', JInt 10), (''b'', JDict [(''c'', JInt 20), (''d'', JInt 80)])])
     = [PInt 10, PInt 20, PInt 80]
   \<and> map (\<lambda>r. (val r, max_value r, min_value r, avg_value r, status r))
       (dashboard_data (snd (process (service0 3)
          (quiet_env (JDict [(''a'', JInt 10), (''b'', JDict [(''c'', JInt 20), (''d'', JInt 80)])]))
          initial_api
          (JDict [(''a'', JInt 10), (''b'', JDict [(''c'', JInt 20), (''d'', JInt 80)])])
          world0)))
     = [(Num (PInt 10), Num (PInt 80), Num (PInt 10), Num (PFloat (3667 / 100)), ''OK'')]
   \<and> select_next_api (config (service0 3)) [PInt 10, PInt 20, PInt 80] 1
     = Inr (Some endpoint_A)"
  by code_simp

text \<open>
  Claim C3 on the code: when the webhook call raises an exception outside the request
  errors, an iteration with a successful fetch and the samples \<open>[10]\<close> calls the email
  and the chat sink only, appends no record and leaves \<open>recursive_workflow\<close> with the
  exception.
\<close>

theorem chat_error_aborts_iteration:
  "recursive_workflow (service0 3)
     ((quiet_env (JDict [(''a'', JInt 10)]))\<lparr>slack_post := (\<lambda>v t. Raises OtherException)\<rparr>)
     (Some initial_api) 0 world0 =
   (Raises OtherException,
    \<lparr>dashboard_data = [],
      logfile = [(INFO, ApiCalled initial_api), (INFO, EmailSent (Num (PInt 10)))],
      trace = [Enter (Some initial_api) 0, HttpGet initial_api,
        SmtpSend (Num (PInt 10)), SlackPost (Num (PInt 10))]\<rparr>)"
  by code_simp

text \<open>
  Claim C8 on the code: \<open>send_slack\<close> handles request errors only, so any other exception
  of the webhook call leaves the sink and the sequence of sink calls before the
  spreadsheet sink is reached.
\<close>

theorem chat_error_skips_sheet:
  "send_slack
     ((quiet_env JNull)\<lparr>slack_post := (\<lambda>v t. Raises OtherException)\<rparr>)
     (Num (PInt 10)) world0 =
   (Raises OtherException,
    \<lparr>dashboard_data = [], logfile = [], trace = [SlackPost (Num (PInt 10))]\<rparr>)
   \<and> notify (service0 3)
     ((quiet_env JNull)\<lparr>slack_post := (\<lambda>v t. Raises OtherException)\<rparr>)
     (Num (PInt 10)) world0 =
   (Raises OtherException,
    \<lparr>dashboard_data = [], logfile = [(INFO, EmailSent (Num (PInt 10)))],
      trace = [SmtpSend (Num (PInt 10)), SlackPost (Num (PInt 10))]\<rparr>)"
  by (simp add: notify_def bind_def send_email_def send_slack_def quiet_env_def world0_def
      called_def logging_def)



end
